theory Spec2Isabelle
  imports Complex_Main "HOL-Library.Multiset"
begin

section \<open>Data model of \<open>main.cpp\<close>\<close>

text \<open>
  The analyzer reads a two-sided order book from a CSV file and derives best bid/ask,
  spread, depth in a band and two volume-weighted average prices. A value of the C++
  type \<open>double\<close> is modelled by the real number it denotes; the rounding of the
  program's arithmetic is modelled in the section on double arithmetic below. The only
  place where the program itself looks at non-finite values (\<open>std::isfinite\<close> in
  \<open>parseDouble\<close>) is modelled through the result type of \<open>std::stod\<close>.
\<close>

datatype Side = BID | ASK

record Order =
  side :: Side
  price :: real
  size' :: real

record Orderbook =
  bids :: "Order list"
  asks :: "Order list"


text \<open>
  Every \<open>throw\<close> of the program is one constructor. \<open>TradeDir\<close> tells the two
  liquidity messages ("to buy", "to sell") apart. \<open>UndefinedBehaviour\<close> marks the one
  place where the program reads \<open>v[0]\<close> of a vector without a guard of its own.
\<close>

datatype TradeDir = Buy | Sell

datatype error =
    FileOpenError string
  | MalformedRow int
  | InvalidSide string
  | InvalidNumber string string
  | EmptySide Side
  | CrossedBook real real
  | InsufficientLiquidity TradeDir real
  | UndefinedBehaviour

section \<open>Double arithmetic\<close>

text \<open>
  Each arithmetic operation of the program on \<open>double\<close> returns the exact result
  rounded to a \<open>double\<close>. The rounding is the parameter \<open>rnd\<close> of the functions that
  calculate, so what is proved of them for every \<open>rnd\<close> holds of the program's
  arithmetic. Comparisons and \<open>std::min\<close> are exact. Overflow to infinity and NaN as the
  result of an operation are outside the model.
\<close>

definition fadd :: "(real \<Rightarrow> real) \<Rightarrow> real \<Rightarrow> real \<Rightarrow> real" where
  "fadd rnd x y = rnd (x + y)"

definition fsub :: "(real \<Rightarrow> real) \<Rightarrow> real \<Rightarrow> real \<Rightarrow> real" where
  "fsub rnd x y = rnd (x - y)"

definition fmul :: "(real \<Rightarrow> real) \<Rightarrow> real \<Rightarrow> real \<Rightarrow> real" where
  "fmul rnd x y = rnd (x * y)"

definition fdiv :: "(real \<Rightarrow> real) \<Rightarrow> real \<Rightarrow> real \<Rightarrow> real" where
  "fdiv rnd x y = rnd (x / y)"

text \<open>
  Two roundings. \<open>exact\<close> does not round: it is the arithmetic of the reals.
  \<open>round_double\<close> is the rounding of IEEE 754 binary64, to the nearest value with a
  significand of 53 bits, ties to the even significand: \<open>binade\<close> finds the exponent
  \<open>e\<close> with \<open>2^e \<le> |x| < 2^(e+1)\<close> (not below the smallest normal exponent), and the
  value is rounded to a multiple of \<open>2^(e-52)\<close>. The search for the exponent takes at
  most 1100 steps, more than the exponents of binary64 need.
\<close>

definition exact :: "real \<Rightarrow> real" where
  "exact x = x"

fun binade :: "nat \<Rightarrow> real \<Rightarrow> int \<Rightarrow> int" where
  "binade 0 x e = e"
| "binade (Suc fuel) x e =
     (if 2 \<le> x then binade fuel (x / 2) (e + 1)
      else if x < 1 then binade fuel (2 * x) (e - 1)
      else e)"

definition pow2 :: "int \<Rightarrow> real" where
  "pow2 e = (if 0 \<le> e then 2 ^ nat e else 1 / 2 ^ nat (- e))"

definition round_half_even :: "real \<Rightarrow> int" where
  "round_half_even m =
     (let n = \<lfloor>m\<rfloor>; r = m - of_int n
      in if r < 1 / 2 then n
         else if 1 / 2 < r then n + 1
         else if even n then n else n + 1)"

definition round_double :: "real \<Rightarrow> real" where
  "round_double x =
     (if x = 0 then 0
      else
        let e = max (binade 1100 \<bar>x\<bar> 0) (- 1022);
            ulp = pow2 (e - 52)
        in of_int (round_half_even (x / ulp)) * ulp)"

section \<open>Row parser\<close>

text \<open>
  \<open>trim\<close> cuts the characters of \<open>" \t\r\n"\<close> from both ends, with the index searches
  of \<open>std::string\<close>: \<open>find_first_not_of\<close> and \<open>find_last_not_of\<close> return \<open>None\<close> for
  \<open>npos\<close>.
\<close>

definition ws :: string where
  "ws = [CHR '' '', CHR 0x09, CHR 0x0D, CHR 0x0A]"

fun find_first_not_of :: "string \<Rightarrow> string \<Rightarrow> nat option" where
  "find_first_not_of [] chars = None"
| "find_first_not_of (c # cs) chars =
     (if c \<in> set chars then map_option Suc (find_first_not_of cs chars) else Some 0)"

definition find_last_not_of :: "string \<Rightarrow> string \<Rightarrow> nat option" where
  "find_last_not_of s chars =
     map_option (\<lambda>i. length s - 1 - i) (find_first_not_of (rev s) chars)"

text \<open>
  \<open>substr start count\<close> is \<open>take count (drop start s)\<close>. When \<open>start\<close> is found, so is
  the end index; the branch for \<open>npos\<close> there (a count that wraps to the rest of the string) is
  never taken.
\<close>

definition trim :: "string \<Rightarrow> string" where
  "trim s =
     (case find_first_not_of s ws of
        None \<Rightarrow> []
      | Some start \<Rightarrow>
          (case find_last_not_of s ws of
             None \<Rightarrow> drop start s
           | Some endIdx \<Rightarrow> take (endIdx - start + 1) (drop start s)))"

text \<open>\<open>::tolower\<close> in the C locale: the 26 upper-case letters, every other byte unchanged.\<close>

definition tolower :: "char \<Rightarrow> char" where
  "tolower c =
     (case map_of (zip ''ABCDEFGHIJKLMNOPQRSTUVWXYZ'' ''abcdefghijklmnopqrstuvwxyz'') c of
        Some l \<Rightarrow> l
      | None \<Rightarrow> c)"

definition parseSide :: "string \<Rightarrow> error + Side" where
  "parseSide raw =
     (let s = map tolower raw
      in if s = ''bid'' then Inr BID
         else if s = ''ask'' then Inr ASK
         else Inl (InvalidSide raw))"

text \<open>
  \<open>std::stod\<close> belongs to the C++ library, not to this program, and what it returns
  depends on the rounding and the range of \<open>double\<close>. The parser therefore takes it as a
  parameter \<open>stod\<close>: a function from the text to one of its three outcomes (a value, which
  may be finite, infinite or NaN; \<open>std::invalid_argument\<close>; \<open>std::out_of_range\<close>).
  Every theorem about the parser holds for every such function.
\<close>

datatype double_val = Finite real | PosInf | NegInf | NaN

datatype stod_result = StodValue double_val | StodInvalidArgument | StodOutOfRange

text \<open>
  \<open>parseDouble\<close>: both exceptions of \<open>stod\<close> and the program's own
  \<open>!std::isfinite(value) || value <= 0.0\<close> end in the one \<open>catch\<close>, which throws the
  message naming the field.
\<close>

definition parseDouble :: "(string \<Rightarrow> stod_result) \<Rightarrow> string \<Rightarrow> string \<Rightarrow> error + real" where
  "parseDouble stod raw fieldName =
     (case stod raw of
        StodValue d \<Rightarrow>
          (case d of
             Finite v \<Rightarrow> if v \<le> 0 then Inl (InvalidNumber fieldName raw) else Inr v
           | PosInf \<Rightarrow> Inl (InvalidNumber fieldName raw)
           | NegInf \<Rightarrow> Inl (InvalidNumber fieldName raw)
           | NaN \<Rightarrow> Inl (InvalidNumber fieldName raw))
      | StodInvalidArgument \<Rightarrow> Inl (InvalidNumber fieldName raw)
      | StodOutOfRange \<Rightarrow> Inl (InvalidNumber fieldName raw))"

text \<open>
  \<open>std::getline(stream, str, delim)\<close> as state passing: the characters before the first
  \<open>delim\<close> and the stream after it. On an exhausted stream the extraction fails and the
  string is empty, which is what this returns as well.
\<close>

definition getline :: "string \<Rightarrow> char \<Rightarrow> string \<times> string" where
  "getline stream delim =
     (takeWhile (\<lambda>c. c \<noteq> delim) stream, drop 1 (dropWhile (\<lambda>c. c \<noteq> delim) stream))"

text \<open>The three \<open>getline\<close> calls of \<open>parseRow\<close>; what follows the third field stays unread.\<close>

definition read_fields :: "string \<Rightarrow> string \<times> string \<times> string" where
  "read_fields line =
     (let (sideStr, ss1) = getline line CHR '','';
          (priceStr, ss2) = getline ss1 CHR '','';
          (sizeStr, ss3) = getline ss2 CHR '',''
      in (sideStr, priceStr, sizeStr))"

definition parseRow :: "(string \<Rightarrow> stod_result) \<Rightarrow> string \<Rightarrow> int \<Rightarrow> error + Order" where
  "parseRow stod line lineNumber =
     (let (sideStr, priceStr, sizeStr) = read_fields line
      in if trim sideStr = [] \<or> trim priceStr = [] \<or> trim sizeStr = []
         then Inl (MalformedRow lineNumber)
         else
           (case parseSide (trim sideStr) of
              Inl e \<Rightarrow> Inl e
            | Inr sd \<Rightarrow>
                (case parseDouble stod (trim priceStr) ''price'' of
                   Inl e \<Rightarrow> Inl e
                 | Inr p \<Rightarrow>
                     (case parseDouble stod (trim sizeStr) ''size'' of
                        Inl e \<Rightarrow> Inl e
                      | Inr sz \<Rightarrow> Inr \<lparr>side = sd, price = p, size' = sz\<rparr>))))"

text \<open>
  The contract of the row parser in its own words, for stating when a number is
  rejected: the text is parseable as a finite number when \<open>stod\<close> returns a finite
  value, and the side token is valid when it is \<open>bid\<close> or \<open>ask\<close> in any case.
\<close>

definition parseable_finite :: "stod_result \<Rightarrow> bool" where
  "parseable_finite r =
     (case r of
        StodValue d \<Rightarrow>
          (case d of Finite v \<Rightarrow> True | PosInf \<Rightarrow> False | NegInf \<Rightarrow> False | NaN \<Rightarrow> False)
      | StodInvalidArgument \<Rightarrow> False
      | StodOutOfRange \<Rightarrow> False)"

definition parsed_value :: "stod_result \<Rightarrow> real" where
  "parsed_value r =
     (case r of
        StodValue d \<Rightarrow>
          (case d of Finite v \<Rightarrow> v | PosInf \<Rightarrow> 0 | NegInf \<Rightarrow> 0 | NaN \<Rightarrow> 0)
      | StodInvalidArgument \<Rightarrow> 0
      | StodOutOfRange \<Rightarrow> 0)"

definition rejected_number :: "stod_result \<Rightarrow> bool" where
  "rejected_number r = (\<not> parseable_finite r \<or> parsed_value r \<le> 0)"

definition valid_side_token :: "string \<Rightarrow> bool" where
  "valid_side_token s = (map tolower s = ''bid'' \<or> map tolower s = ''ask'')"

subsection \<open>An instance of \<open>stod\<close> for decimal text\<close>

text \<open>
  \<open>stod_dec\<close> follows the \<open>strtod\<close> grammar on decimal text: leading white space, an
  optional sign, then \<open>inf\<close> or \<open>nan\<close> in any case, or digits with an optional fraction
  and an optional exponent; the conversion stops at the first character that does not
  fit, and without any digit it is \<open>std::invalid_argument\<close>. The value is the exact
  decimal. Hexadecimal literals and range errors are not part of it; it is used where a
  concrete row is evaluated.
\<close>

definition isspace :: "char \<Rightarrow> bool" where
  "isspace c = (c \<in> set [CHR '' '', CHR 0x09, CHR 0x0A, CHR 0x0B, CHR 0x0C, CHR 0x0D])"

definition digit_of :: "char \<Rightarrow> nat option" where
  "digit_of c = map_of (zip ''0123456789'' [0, 1, 2, 3, 4, 5, 6, 7, 8, 9]) c"

definition isdigit :: "char \<Rightarrow> bool" where
  "isdigit c = (digit_of c \<noteq> None)"

fun digits_value :: "nat \<Rightarrow> string \<Rightarrow> nat" where
  "digits_value acc [] = acc"
| "digits_value acc (c # cs) =
     digits_value (10 * acc + (case digit_of c of Some d \<Rightarrow> d | None \<Rightarrow> 0)) cs"

definition exponent_of :: "string \<Rightarrow> int" where
  "exponent_of s =
     (if take 1 s = ''e'' \<or> take 1 s = ''E'' then
        let t = drop 1 s;
            u = (if take 1 t = ''-'' \<or> take 1 t = ''+'' then drop 1 t else t);
            ds = takeWhile isdigit u
        in if ds = [] then 0
           else if take 1 t = ''-'' then - int (digits_value 0 ds)
           else int (digits_value 0 ds)
      else 0)"

definition scale10 :: "real \<Rightarrow> int \<Rightarrow> real" where
  "scale10 m ex = (if 0 \<le> ex then m * 10 ^ nat ex else m / 10 ^ nat (- ex))"

definition stod_dec :: "string \<Rightarrow> stod_result" where
  "stod_dec raw =
     (let s0 = dropWhile isspace raw;
          neg = (take 1 s0 = ''-'');
          s1 = (if take 1 s0 = ''-'' \<or> take 1 s0 = ''+'' then drop 1 s0 else s0);
          low = map tolower (take 3 s1)
      in if low = ''inf'' then StodValue (if neg then NegInf else PosInf)
         else if low = ''nan'' then StodValue NaN
         else
           let ip = takeWhile isdigit s1;
               r1 = dropWhile isdigit s1;
               fp = (if take 1 r1 = ''.'' then takeWhile isdigit (drop 1 r1) else []);
               r2 = (if take 1 r1 = ''.'' then dropWhile isdigit (drop 1 r1) else r1)
           in if ip = [] \<and> fp = [] then StodInvalidArgument
              else
                let m = real (digits_value 0 (ip @ fp)) / 10 ^ length fp;
                    v = scale10 m (exponent_of r2)
                in StodValue (Finite (if neg then - v else v)))"

section \<open>Book loader\<close>

text \<open>
  \<open>std::sort\<close> with a comparator. The library leaves the order of elements that compare
  equal open; the model is the insertion sort, one of the orders the library may
  produce. No theorem below depends on how ties come out.
\<close>

fun insert_sorted :: "('a \<Rightarrow> 'a \<Rightarrow> bool) \<Rightarrow> 'a \<Rightarrow> 'a list \<Rightarrow> 'a list" where
  "insert_sorted cmp x [] = [x]"
| "insert_sorted cmp x (y # ys) =
     (if cmp y x then y # insert_sorted cmp x ys else x # y # ys)"

definition std_sort :: "('a \<Rightarrow> 'a \<Rightarrow> bool) \<Rightarrow> 'a list \<Rightarrow> 'a list" where
  "std_sort cmp xs = foldr (insert_sorted cmp) xs []"

text \<open>
  The lines that \<open>while (std::getline(file, line))\<close> reads from the rest of a file: the
  loop ends when nothing is left, so a final newline opens no further line.
\<close>

function getlines :: "string \<Rightarrow> string list" where
  "getlines stream =
     (if stream = [] then []
      else fst (getline stream CHR 0x0A) # getlines (snd (getline stream CHR 0x0A)))"
  by pat_completeness auto
termination
proof (relation "measure length")
  fix stream :: string
  assume "stream \<noteq> []"
  moreover have "length (dropWhile (\<lambda>c. c \<noteq> CHR 0x0A) stream) \<le> length stream"
    by (rule length_dropWhile_le)
  ultimately show "(snd (getline stream CHR 0x0A), stream) \<in> measure length"
    by (cases stream) (auto simp: getline_def)
qed simp

declare getlines.simps [simp del]

text \<open>
  The body of the reading loop, over the lines after the header: \<open>lineNumber\<close> is
  incremented first, a blank line is skipped, a row that fails to parse ends the load with
  its error, and an order is appended to its side. The counter is an \<open>int\<close> of the
  program and an unbounded integer here; it only ever reaches the text of an error.
\<close>

fun load_loop ::
  "(string \<Rightarrow> stod_result) \<Rightarrow> string list \<Rightarrow> int \<Rightarrow> Orderbook \<Rightarrow> error + Orderbook" where
  "load_loop stod [] lineNumber book = Inr book"
| "load_loop stod (line # rest) lineNumber book =
     (if trim line = [] then load_loop stod rest (lineNumber + 1) book
      else
        (case parseRow stod line (lineNumber + 1) of
           Inl e \<Rightarrow> Inl e
         | Inr order \<Rightarrow>
             if side order = BID
             then load_loop stod rest (lineNumber + 1) (book\<lparr>bids := bids book @ [order]\<rparr>)
             else load_loop stod rest (lineNumber + 1) (book\<lparr>asks := asks book @ [order]\<rparr>)))"

text \<open>
  \<open>loadCSV\<close>. The file system is a map from file names to contents; a name outside its
  domain cannot be opened. The first line is dropped as the header and counts as line 1.
\<close>

definition loadCSV ::
  "(string \<Rightarrow> stod_result) \<Rightarrow> (string \<Rightarrow> string option) \<Rightarrow> string \<Rightarrow> error + Orderbook" where
  "loadCSV stod fs filename =
     (case fs filename of
        None \<Rightarrow> Inl (FileOpenError filename)
      | Some content \<Rightarrow>
          (case load_loop stod (drop 1 (getlines content)) 1 \<lparr>bids = [], asks = []\<rparr> of
             Inl e \<Rightarrow> Inl e
           | Inr book \<Rightarrow>
               if bids book = [] then Inl (EmptySide BID)
               else if asks book = [] then Inl (EmptySide ASK)
               else
                 let sorted_book =
                       \<lparr>bids = std_sort (\<lambda>a b. price a > price b) (bids book),
                        asks = std_sort (\<lambda>a b. price a < price b) (asks book)\<rparr>
                 in if price (bids sorted_book ! 0) \<ge> price (asks sorted_book ! 0)
                    then Inl (CrossedBook (price (bids sorted_book ! 0))
                                          (price (asks sorted_book ! 0)))
                    else Inr sorted_book))"

text \<open>
  For stating what was loaded: the non-blank rows after the header, each with the line
  number the loop has when it parses the row.
\<close>

fun number_from :: "int \<Rightarrow> 'a list \<Rightarrow> ('a \<times> int) list" where
  "number_from n [] = []"
| "number_from n (x # xs) = (x, n) # number_from (n + 1) xs"

definition nonblank :: "string \<times> int \<Rightarrow> bool" where
  "nonblank row = (trim (fst row) \<noteq> [])"

definition data_rows :: "string \<Rightarrow> (string \<times> int) list" where
  "data_rows content = filter nonblank (number_from 2 (drop 1 (getlines content)))"

definition parse_numbered :: "(string \<Rightarrow> stod_result) \<Rightarrow> string \<times> int \<Rightarrow> error + Order" where
  "parse_numbered stod row = parseRow stod (fst row) (snd row)"

definition bid_orders :: "Order list \<Rightarrow> Order list" where
  "bid_orders orders = filter (\<lambda>ord. side ord = BID) orders"

definition ask_orders :: "Order list \<Rightarrow> Order list" where
  "ask_orders orders = filter (\<lambda>ord. side ord = ASK) orders"

text \<open>Orderings of a side by price, strict and not.\<close>

definition strictly_descending :: "Order list \<Rightarrow> bool" where
  "strictly_descending orders = sorted_wrt (\<lambda>a b. price a > price b) orders"

definition strictly_ascending :: "Order list \<Rightarrow> bool" where
  "strictly_ascending orders = sorted_wrt (\<lambda>a b. price a < price b) orders"

definition descending :: "Order list \<Rightarrow> bool" where
  "descending orders = sorted_wrt (\<lambda>a b. price a \<ge> price b) orders"

definition ascending :: "Order list \<Rightarrow> bool" where
  "ascending orders = sorted_wrt (\<lambda>a b. price a \<le> price b) orders"

text \<open>Three small files for the concrete evaluations below.\<close>

definition sample_fs :: "string \<Rightarrow> string option" where
  "sample_fs name =
     (if name = ''orderbook.csv''
      then Some ''side,price,size\<newline>bid,100.0,10\<newline>ask,101.0,8\<newline>\<newline>bid,99.0,5\<newline>ask,102.0,10\<newline>''
      else if name = ''ties.csv''
      then Some ''side,price,size\<newline>bid,100,5\<newline>bid,100,3\<newline>ask,101,1\<newline>''
      else if name = ''crossed.csv''
      then Some ''side,price,size\<newline>bid,105.0,1\<newline>ask,100.0,1\<newline>''
      else None)"

section \<open>Depth aggregation\<close>

text \<open>
  \<open>calcDepth\<close>: one pass over the orders with the running \<open>total\<close>, adding the size of
  every order whose price is inside the closed band. The test of the band is an exact
  comparison; the sum is kept exact, its rounding being the variance that the contract
  of the depth declares immaterial.
\<close>

definition calcDepth :: "Order list \<Rightarrow> real \<Rightarrow> real \<Rightarrow> real" where
  "calcDepth orders minPrice maxPrice =
     foldl (\<lambda>total order.
              if price order \<ge> minPrice \<and> price order \<le> maxPrice
              then total + size' order else total)
           0 orders"

text \<open>The invariant of the data model: an order rests at a positive price with a positive size.\<close>

definition valid_order :: "Order \<Rightarrow> bool" where
  "valid_order ord = (0 < price ord \<and> 0 < size' ord)"

definition in_band :: "real \<Rightarrow> real \<Rightarrow> Order \<Rightarrow> bool" where
  "in_band minPrice maxPrice ord = (minPrice \<le> price ord \<and> price ord \<le> maxPrice)"

section \<open>VWAP sweep\<close>

text \<open>
  The loop of \<open>calcVWAPBuy\<close> with its two variables: it leaves at the first level where
  \<open>remaining <= 0.0\<close>, and otherwise fills \<open>std::min(remaining, ask.size)\<close>, adds
  \<open>filled * ask.price\<close> to the cost and subtracts \<open>filled\<close> from \<open>remaining\<close>, each
  operation rounded.
\<close>

fun calcVWAPBuy_loop ::
  "(real \<Rightarrow> real) \<Rightarrow> Order list \<Rightarrow> real \<Rightarrow> real \<Rightarrow> real \<times> real" where
  "calcVWAPBuy_loop rnd [] remaining totalCost = (remaining, totalCost)"
| "calcVWAPBuy_loop rnd (ask # rest) remaining totalCost =
     (if remaining \<le> 0 then (remaining, totalCost)
      else
        let filled = min remaining (size' ask)
        in calcVWAPBuy_loop rnd rest
             (fsub rnd remaining filled)
             (fadd rnd totalCost (fmul rnd filled (price ask))))"

definition calcVWAPBuy :: "(real \<Rightarrow> real) \<Rightarrow> Order list \<Rightarrow> real \<Rightarrow> error + real" where
  "calcVWAPBuy rnd askLevels targetQty =
     (let (remaining, totalCost) = calcVWAPBuy_loop rnd askLevels targetQty 0
      in if remaining > 0 then Inl (InsufficientLiquidity Buy targetQty)
         else Inr (fdiv rnd totalCost targetQty))"

fun calcVWAPSell_loop ::
  "(real \<Rightarrow> real) \<Rightarrow> Order list \<Rightarrow> real \<Rightarrow> real \<Rightarrow> real \<times> real" where
  "calcVWAPSell_loop rnd [] remaining totalRevenue = (remaining, totalRevenue)"
| "calcVWAPSell_loop rnd (bid # rest) remaining totalRevenue =
     (if remaining \<le> 0 then (remaining, totalRevenue)
      else
        let filled = min remaining (size' bid)
        in calcVWAPSell_loop rnd rest
             (fsub rnd remaining filled)
             (fadd rnd totalRevenue (fmul rnd filled (price bid))))"

definition calcVWAPSell :: "(real \<Rightarrow> real) \<Rightarrow> Order list \<Rightarrow> real \<Rightarrow> error + real" where
  "calcVWAPSell rnd bidLevels targetQty =
     (let (remaining, totalRevenue) = calcVWAPSell_loop rnd bidLevels targetQty 0
      in if remaining > 0 then Inl (InsufficientLiquidity Sell targetQty)
         else Inr (fdiv rnd totalRevenue targetQty))"

text \<open>
  The sweep in the words of its contract, in the arithmetic of the reals, for comparison
  with the two loops: the amount filled at each successive level is the smaller of what
  remains and the level's size, and nothing is filled once nothing remains.
\<close>

fun sweep_fills :: "real \<Rightarrow> Order list \<Rightarrow> real list" where
  "sweep_fills remaining [] = []"
| "sweep_fills remaining (level # levels) =
     (if remaining \<le> 0 then []
      else min remaining (size' level)
           # sweep_fills (remaining - min remaining (size' level)) levels)"

definition fill_value :: "real list \<Rightarrow> Order list \<Rightarrow> real" where
  "fill_value fills levels = sum_list (map2 (\<lambda>filled level. filled * price level) fills levels)"

definition total_size :: "Order list \<Rightarrow> real" where
  "total_size levels = sum_list (map size' levels)"

text \<open>
  Two lists of ask levels whose sizes are the doubles that \<open>std::stod\<close> returns for the
  decimal texts: 1.91, 6.61 and 31.48, and 0.1, 0.1 and 0.2.
\<close>

definition levels_40 :: "Order list" where
  "levels_40 =
     [\<lparr>side = ASK, price = 101, size' = round_double 1.91\<rparr>,
      \<lparr>side = ASK, price = 102, size' = round_double 6.61\<rparr>,
      \<lparr>side = ASK, price = 103, size' = round_double 31.48\<rparr>]"

definition levels_04 :: "Order list" where
  "levels_04 =
     [\<lparr>side = ASK, price = 101, size' = round_double 0.1\<rparr>,
      \<lparr>side = ASK, price = 102, size' = round_double 0.1\<rparr>,
      \<lparr>side = ASK, price = 103, size' = round_double 0.2\<rparr>]"

section \<open>Analytics\<close>



section \<open>Properties of depth aggregation\<close>

lemma calcDepth_foldl:
  "foldl (\<lambda>total order.
            if price order \<ge> lo \<and> price order \<le> hi then total + size' order else total)
         acc orders
   = acc + sum_list (map size' (filter (in_band lo hi) orders))"
  by (induction orders arbitrary: acc) (simp_all add: in_band_def)

lemma calcDepth_sum:
  "calcDepth orders lo hi = sum_list (map size' (filter (in_band lo hi) orders))"
  by (simp add: calcDepth_def calcDepth_foldl)

lemma band_depth_mono:
  assumes "list_all valid_order orders" and "lo' \<le> lo" and "hi \<le> hi'"
  shows "sum_list (map size' (filter (in_band lo hi) orders))
         \<le> sum_list (map size' (filter (in_band lo' hi') orders))"
  using assms
proof (induction orders)
  case Nil
  then show ?case by simp
next
  case (Cons ord orders)
  from Cons.prems(1) have rest: "list_all valid_order orders" and "valid_order ord"
    by simp_all
  then have pos: "0 < size' ord"
    by (simp add: valid_order_def)
  have widen: "in_band lo hi ord \<Longrightarrow> in_band lo' hi' ord"
    using Cons.prems(2,3) by (simp add: in_band_def)
  from Cons.IH [OF rest Cons.prems(2,3)] pos widen show ?case
    by (cases "in_band lo hi ord"; cases "in_band lo' hi' ord") simp_all
qed

text \<open>
  C5: \<open>calcDepth\<close> returns the sum of the sizes of exactly the orders whose price lies in
  the closed interval from \<open>minPrice\<close> to \<open>maxPrice\<close>. It is a total function into the
  reals (there is no failure branch), and when no order is in the band, in particular for
  the empty list, the result is 0.
\<close>

theorem C5_calcDepth_band_sum:
  "calcDepth orders minPrice maxPrice
     = sum_list (map size' (filter (\<lambda>ord. minPrice \<le> price ord \<and> price ord \<le> maxPrice) orders))
   \<and> calcDepth [] minPrice maxPrice = 0
   \<and> ((\<forall>ord \<in> set orders. \<not> (minPrice \<le> price ord \<and> price ord \<le> maxPrice))
        \<longrightarrow> calcDepth orders minPrice maxPrice = 0)"
proof -
  have band: "(\<lambda>ord. minPrice \<le> price ord \<and> price ord \<le> maxPrice) = in_band minPrice maxPrice"
    by (rule ext) (simp add: in_band_def)
  have none: "filter (in_band minPrice maxPrice) orders = []"
    if "\<forall>ord \<in> set orders. \<not> (minPrice \<le> price ord \<and> price ord \<le> maxPrice)"
    using that by (simp add: filter_empty_conv in_band_def)
  show ?thesis
    by (simp add: band calcDepth_sum none)
qed

theorem C5_calcDepth_band_sum_witness:
  "calcDepth [\<lparr>side = BID, price = 100, size' = 10\<rparr>, \<lparr>side = BID, price = 99, size' = 5\<rparr>] 99.5 101 = 10
   \<and> calcDepth [\<lparr>side = BID, price = 100, size' = 10\<rparr>, \<lparr>side = BID, price = 99, size' = 5\<rparr>] 101 102 = 0"
  using C5_calcDepth_band_sum
    [of "[\<lparr>side = BID, price = 100, size' = 10\<rparr>, \<lparr>side = BID, price = 99, size' = 5\<rparr>]" "99.5" 101]
    C5_calcDepth_band_sum
    [of "[\<lparr>side = BID, price = 100, size' = 10\<rparr>, \<lparr>side = BID, price = 99, size' = 5\<rparr>]" 101 102]
  by simp

text \<open>
  C6: depth is monotonic in the band. For orders of the data model (positive price and
  size; the row parser produces no other, see \<open>parseRow_valid_order\<close> and
  \<open>loaded_orders_valid\<close> below), widening the band on either side never decreases the
  depth.
\<close>

theorem C6_calcDepth_monotonic:
  assumes "list_all valid_order orders"
    and "minPrice' \<le> minPrice" and "maxPrice \<le> maxPrice'"
  shows "calcDepth orders minPrice' maxPrice' \<ge> calcDepth orders minPrice maxPrice"
  using band_depth_mono [OF assms] by (simp add: calcDepth_sum)

theorem C6_calcDepth_monotonic_witness:
  "list_all valid_order [\<lparr>side = ASK, price = 101, size' = 8\<rparr>, \<lparr>side = ASK, price = 102, size' = 10\<rparr>]
   \<and> (100::real) \<le> 101 \<and> (101::real) \<le> 103
   \<and> calcDepth [\<lparr>side = ASK, price = 101, size' = 8\<rparr>, \<lparr>side = ASK, price = 102, size' = 10\<rparr>] 100 103 = 18
   \<and> calcDepth [\<lparr>side = ASK, price = 101, size' = 8\<rparr>, \<lparr>side = ASK, price = 102, size' = 10\<rparr>] 101 101 = 8"
  using C6_calcDepth_monotonic
    [of "[\<lparr>side = ASK, price = 101, size' = 8\<rparr>, \<lparr>side = ASK, price = 102, size' = 10\<rparr>]" 100 101 101 103]
  by (simp add: valid_order_def calcDepth_def)

section \<open>Properties of the VWAP sweep\<close>

lemma calcVWAPSell_loop_eq:
  "calcVWAPSell_loop rnd levels remaining acc = calcVWAPBuy_loop rnd levels remaining acc"
  by (induction levels arbitrary: remaining acc) simp_all

lemma calcVWAPSell_eq:
  "calcVWAPSell rnd levels targetQty =
     (case calcVWAPBuy rnd levels targetQty of
        Inl e \<Rightarrow> Inl (InsufficientLiquidity Sell targetQty)
      | Inr v \<Rightarrow> Inr v)"
  by (simp add: calcVWAPSell_def calcVWAPBuy_def calcVWAPSell_loop_eq split: prod.splits)

lemma loop_done:
  "remaining \<le> 0 \<Longrightarrow> calcVWAPBuy_loop rnd levels remaining acc = (remaining, acc)"
  by (cases levels) simp_all

subsection \<open>The sweep in the arithmetic of the reals\<close>

text \<open>
  Without rounding the loops are the sweep of the contract: a positive target that is at
  most the total resting size is filled, and for positive sizes a larger target is not.
\<close>

lemma exact_ops:
  "fadd exact x y = x + y" "fsub exact x y = x - y"
  "fmul exact x y = x * y" "fdiv exact x y = x / y"
  by (simp_all add: fadd_def fsub_def fmul_def fdiv_def exact_def)

lemma fill_value_Cons:
  "fill_value (f # fills) (level # levels) = f * price level + fill_value fills levels"
  by (simp add: fill_value_def)

lemma fill_value_Nil: "fill_value [] levels = 0"
  by (simp add: fill_value_def)

lemma loop_as_fills:
  "calcVWAPBuy_loop exact levels remaining acc =
     (remaining - sum_list (sweep_fills remaining levels),
      acc + fill_value (sweep_fills remaining levels) levels)"
proof (induction levels arbitrary: remaining acc)
  case Nil
  show ?case by (simp add: fill_value_Nil)
next
  case (Cons level levels)
  show ?case
  proof (cases "remaining \<le> 0")
    case True
    then show ?thesis by (simp add: fill_value_Nil)
  next
    case False
    then show ?thesis
      by (simp add: Cons.IH fill_value_Cons Let_def exact_ops algebra_simps)
  qed
qed

lemma loop_remaining_nonneg:
  "0 \<le> remaining \<Longrightarrow> 0 \<le> fst (calcVWAPBuy_loop exact levels remaining acc)"
proof (induction levels arbitrary: remaining acc)
  case Nil
  then show ?case by simp
next
  case (Cons level levels)
  have "0 \<le> remaining - min remaining (size' level)" by simp
  from Cons.IH [OF this] Cons.prems show ?case
    by (simp add: Let_def exact_ops)
qed

lemma loop_sufficient:
  "remaining \<le> total_size levels \<Longrightarrow> fst (calcVWAPBuy_loop exact levels remaining acc) \<le> 0"
proof (induction levels arbitrary: remaining acc)
  case Nil
  then show ?case by (simp add: total_size_def)
next
  case (Cons level levels)
  show ?case
  proof (cases "remaining \<le> 0")
    case True
    then show ?thesis by simp
  next
    case pos: False
    show ?thesis
    proof (cases "remaining \<le> size' level")
      case True
      then have "min remaining (size' level) = remaining" by simp
      with pos show ?thesis by (simp add: Let_def loop_done exact_ops)
    next
      case False
      then have m: "min remaining (size' level) = size' level" by simp
      from Cons.prems have "remaining - size' level \<le> total_size levels"
        by (simp add: total_size_def)
      from Cons.IH [OF this] pos m show ?thesis by (simp add: Let_def exact_ops)
    qed
  qed
qed

lemma total_size_nonneg:
  "list_all valid_order levels \<Longrightarrow> 0 \<le> total_size levels"
proof (induction levels)
  case Nil
  show ?case by (simp add: total_size_def)
next
  case (Cons level levels)
  then have "0 < size' level" and "0 \<le> total_size levels"
    by (simp_all add: valid_order_def)
  then show ?case by (simp add: total_size_def)
qed

lemma loop_insufficient:
  "list_all valid_order levels \<Longrightarrow> total_size levels < remaining
     \<Longrightarrow> 0 < fst (calcVWAPBuy_loop exact levels remaining acc)"
proof (induction levels arbitrary: remaining acc)
  case Nil
  then show ?case by (simp add: total_size_def)
next
  case (Cons level levels)
  from Cons.prems(1) have rest: "list_all valid_order levels" and "valid_order level"
    by simp_all
  then have sz: "0 < size' level" by (simp add: valid_order_def)
  from Cons.prems(2) have split: "size' level + total_size levels < remaining"
    by (simp add: total_size_def)
  with total_size_nonneg [OF rest] sz have big: "size' level < remaining" and pos: "0 < remaining"
    by linarith+
  then have m: "min remaining (size' level) = size' level" by simp
  from split have "total_size levels < remaining - size' level" by linarith
  from Cons.IH [OF rest this] pos m show ?case by (simp add: Let_def exact_ops)
qed

lemma exact_sweep_returns:
  assumes "0 < targetQty" and "targetQty \<le> total_size levels"
  shows "calcVWAPBuy exact levels targetQty
           = Inr (fill_value (sweep_fills targetQty levels) levels / targetQty)"
    and "calcVWAPSell exact levels targetQty
           = Inr (fill_value (sweep_fills targetQty levels) levels / targetQty)"
    and "sum_list (sweep_fills targetQty levels) = targetQty"
proof -
  have le: "fst (calcVWAPBuy_loop exact levels targetQty 0) \<le> 0"
    by (rule loop_sufficient [OF assms(2)])
  have ge: "0 \<le> fst (calcVWAPBuy_loop exact levels targetQty 0)"
    using assms(1) by (intro loop_remaining_nonneg) simp
  from le show buy: "calcVWAPBuy exact levels targetQty
           = Inr (fill_value (sweep_fills targetQty levels) levels / targetQty)"
    by (simp add: calcVWAPBuy_def loop_as_fills exact_ops)
  then show "calcVWAPSell exact levels targetQty
           = Inr (fill_value (sweep_fills targetQty levels) levels / targetQty)"
    by (simp add: calcVWAPSell_eq)
  from le ge show "sum_list (sweep_fills targetQty levels) = targetQty"
    by (simp add: loop_as_fills)
qed

lemma exact_sweep_fails:
  assumes "list_all valid_order levels" and "total_size levels < targetQty"
  shows "calcVWAPBuy exact levels targetQty = Inl (InsufficientLiquidity Buy targetQty)"
    and "calcVWAPSell exact levels targetQty = Inl (InsufficientLiquidity Sell targetQty)"
proof -
  from loop_insufficient [OF assms, of 0]
  show buy: "calcVWAPBuy exact levels targetQty = Inl (InsufficientLiquidity Buy targetQty)"
    by (auto simp: calcVWAPBuy_def split: prod.splits)
  then show "calcVWAPSell exact levels targetQty = Inl (InsufficientLiquidity Sell targetQty)"
    by (simp add: calcVWAPSell_eq)
qed

subsection \<open>The sweep in double arithmetic\<close>

text \<open>
  With the rounding of binary64 the subtraction \<open>remaining -= filled\<close> can leave a
  residue above zero after the last level although the levels hold the whole target.
\<close>

lemmas double_eval =
  round_double_def round_half_even_def pow2_def Let_def numeral_eq_Suc
  fadd_def fsub_def fmul_def fdiv_def

lemma double_values:
  "round_double 1.91 = 8601875288277647 / 4503599627370496"
  "round_double 6.61 = 7442198384229745 / 1125899906842624"
  "round_double 31.48 = 8860832266851451 / 281474976710656"
  "round_double 0.1 = 3602879701896397 / 36028797018963968"
  "round_double 0.2 = 3602879701896397 / 18014398509481984"
  "round_double 0.4 = 3602879701896397 / 9007199254740992"
  by (simp_all add: double_eval)

lemma residue_40:
  "fst (calcVWAPBuy_loop round_double levels_40 40 0) = 1 / 2 ^ 48"
  unfolding levels_40_def double_values
  by (simp add: double_eval)

lemma residue_04:
  "fst (calcVWAPBuy_loop round_double levels_04 (round_double 0.4) 0) = 1 / 2 ^ 55"
  unfolding levels_04_def double_values
  by (simp add: double_eval)

text \<open>
  C2, at an input where the program does not return: the asks hold 1.91, 6.61 and 31.48
  units, which is more than 40, and the buy sweep for 40 units ends with the remaining
  quantity \<open>2^-48\<close> and fails with InsufficientLiquidity, as does the sell sweep over the
  same levels. On the book of the scenario the two sweeps return the doubles of 101.2
  and of (10 * 100 + 2 * 99) / 12.
\<close>

theorem C2_sweep_rounding_failure:
  "40 \<le> total_size levels_40
   \<and> fst (calcVWAPBuy_loop round_double levels_40 40 0) = 1 / 2 ^ 48
   \<and> calcVWAPBuy round_double levels_40 40 = Inl (InsufficientLiquidity Buy 40)
   \<and> calcVWAPSell round_double levels_40 40 = Inl (InsufficientLiquidity Sell 40)
   \<and> calcVWAPBuy round_double
        [\<lparr>side = ASK, price = 101, size' = 8\<rparr>, \<lparr>side = ASK, price = 102, size' = 10\<rparr>] 10
       = Inr (round_double 101.2)
   \<and> calcVWAPSell round_double
        [\<lparr>side = BID, price = 100, size' = 10\<rparr>, \<lparr>side = BID, price = 99, size' = 5\<rparr>] 12
       = Inr (round_double ((10 * 100 + 2 * 99) / 12))"
proof -
  have total: "40 \<le> total_size levels_40"
    unfolding levels_40_def double_values by (simp add: total_size_def)
  have buy: "calcVWAPBuy round_double levels_40 40 = Inl (InsufficientLiquidity Buy 40)"
    unfolding calcVWAPBuy_def case_prod_beta Let_def residue_40 by simp
  have sell: "calcVWAPSell round_double levels_40 40 = Inl (InsufficientLiquidity Sell 40)"
    using buy by (simp add: calcVWAPSell_eq)
  have s1: "calcVWAPBuy round_double
        [\<lparr>side = ASK, price = 101, size' = 8\<rparr>, \<lparr>side = ASK, price = 102, size' = 10\<rparr>] 10
       = Inr (round_double 101.2)"
    by (simp add: calcVWAPBuy_def double_eval)
  have s2: "calcVWAPSell round_double
        [\<lparr>side = BID, price = 100, size' = 10\<rparr>, \<lparr>side = BID, price = 99, size' = 5\<rparr>] 12
       = Inr (round_double ((10 * 100 + 2 * 99) / 12))"
    by (simp add: calcVWAPSell_def double_eval)
  from total buy sell s1 s2 show ?thesis
    by (simp only: residue_40 simp_thms)
qed

text \<open>
  C3, at an input where the program fails without the target exceeding the total: the
  levels hold 0.1, 0.1 and 0.2 units, positive and together exactly the double of 0.4;
  the sweep for that target ends with the remaining quantity \<open>2^-55\<close> and fails with
  InsufficientLiquidity, on the buy and on the sell side.
\<close>

theorem C3_sweep_rounding_failure:
  "list_all valid_order levels_04
   \<and> 0 < round_double 0.4
   \<and> total_size levels_04 = round_double 0.4
   \<and> fst (calcVWAPBuy_loop round_double levels_04 (round_double 0.4) 0) = 1 / 2 ^ 55
   \<and> calcVWAPBuy round_double levels_04 (round_double 0.4)
       = Inl (InsufficientLiquidity Buy (round_double 0.4))
   \<and> calcVWAPSell round_double levels_04 (round_double 0.4)
       = Inl (InsufficientLiquidity Sell (round_double 0.4))"
proof -
  have valid: "list_all valid_order levels_04"
    unfolding levels_04_def double_values by (simp add: valid_order_def)
  have pos: "0 < round_double 0.4"
    unfolding double_values by simp
  have total: "total_size levels_04 = round_double 0.4"
    unfolding levels_04_def double_values by (simp add: total_size_def)
  have buy: "calcVWAPBuy round_double levels_04 (round_double 0.4)
       = Inl (InsufficientLiquidity Buy (round_double 0.4))"
    unfolding calcVWAPBuy_def case_prod_beta Let_def residue_04 by simp
  have sell: "calcVWAPSell round_double levels_04 (round_double 0.4)
       = Inl (InsufficientLiquidity Sell (round_double 0.4))"
    using buy by (simp add: calcVWAPSell_eq)
  from valid pos total buy sell show ?thesis
    by (simp only: residue_04 simp_thms)
qed

section \<open>Properties of the row parser\<close>

lemma getline_delim:
  "delim \<notin> set field \<Longrightarrow> getline (field @ delim # rest) delim = (field, rest)"
  by (induction field) (auto simp: getline_def)

lemma getline_last:
  "delim \<notin> set field \<Longrightarrow> getline field delim = (field, [])"
  by (induction field) (auto simp: getline_def)

lemma read_fields_three:
  assumes "CHR '','' \<notin> set a" and "CHR '','' \<notin> set b" and "CHR '','' \<notin> set c"
  shows "read_fields (a @ '','' @ b @ '','' @ c) = (a, b, c)"
  using assms by (simp add: read_fields_def getline_delim getline_last)

lemma read_fields_more:
  assumes "CHR '','' \<notin> set a" and "CHR '','' \<notin> set b" and "CHR '','' \<notin> set c"
  shows "read_fields (a @ '','' @ b @ '','' @ c @ '','' @ rest) = (a, b, c)"
  using assms by (simp add: read_fields_def getline_delim)

lemma parseRow_fields:
  "read_fields line = read_fields line' \<Longrightarrow> parseRow stod line n = parseRow stod line' n"
  by (simp add: parseRow_def)

lemma parseDouble_cases:
  "parseDouble stod raw fieldName =
     (if rejected_number (stod raw) then Inl (InvalidNumber fieldName raw)
      else Inr (parsed_value (stod raw)))"
  by (simp add: parseDouble_def rejected_number_def parseable_finite_def parsed_value_def
      split: stod_result.splits double_val.splits)

lemma parseSide_valid:
  "valid_side_token s \<Longrightarrow> \<exists>sd. parseSide s = Inr sd"
  by (auto simp: valid_side_token_def parseSide_def)

lemma parseDouble_positive:
  "parseDouble stod raw fieldName = Inr v \<Longrightarrow> 0 < v"
  by (simp add: parseDouble_def split: stod_result.splits double_val.splits if_splits)

lemma parseRow_valid_order:
  "parseRow stod line n = Inr ord \<Longrightarrow> valid_order ord"
  by (auto simp: parseRow_def valid_order_def split: prod.splits if_splits sum.splits
      dest: parseDouble_positive)

lemma parseRow_lineNumber:
  "parseRow stod line n = Inr ord \<Longrightarrow> parseRow stod line m = Inr ord"
  by (auto simp: parseRow_def split: prod.splits if_splits sum.splits)

lemma parseRow_nonempty_fields:
  assumes "read_fields line = (sideStr, priceStr, sizeStr)"
    and "trim sideStr \<noteq> []" and "trim priceStr \<noteq> []" and "trim sizeStr \<noteq> []"
    and "parseSide (trim sideStr) = Inr sd"
  shows "parseRow stod line lineNumber =
     (if rejected_number (stod (trim priceStr))
      then Inl (InvalidNumber ''price'' (trim priceStr))
      else if rejected_number (stod (trim sizeStr))
      then Inl (InvalidNumber ''size'' (trim sizeStr))
      else Inr \<lparr>side = sd, price = parsed_value (stod (trim priceStr)),
                size' = parsed_value (stod (trim sizeStr))\<rparr>)"
  using assms by (simp add: parseRow_def parseDouble_cases)

lemmas row_eval =
  parseRow_def read_fields_def getline_def trim_def ws_def find_last_not_of_def
  parseSide_def tolower_def parseDouble_def stod_dec_def isspace_def isdigit_def
  digit_of_def exponent_of_def scale10_def

text \<open>
  C7: for a row whose three fields are non-empty after trimming and whose side token is
  valid, the parser fails with InvalidNumber exactly when \<open>stod\<close> does not return a
  finite value for the price or the size text, or returns a value that is not positive.
  The error names the first such field, price before size; otherwise the row parses to
  the order of the two values. The row \<open>bid,-1.0,5\<close> fails with InvalidNumber for its
  price.
\<close>

theorem C7_invalid_number:
  assumes "read_fields line = (sideStr, priceStr, sizeStr)"
    and "trim sideStr \<noteq> []" and "trim priceStr \<noteq> []" and "trim sizeStr \<noteq> []"
    and "valid_side_token (trim sideStr)"
  shows "(\<exists>fieldName raw. parseRow stod line lineNumber = Inl (InvalidNumber fieldName raw))
           = (rejected_number (stod (trim priceStr)) \<or> rejected_number (stod (trim sizeStr)))
       \<and> (if rejected_number (stod (trim priceStr))
          then parseRow stod line lineNumber = Inl (InvalidNumber ''price'' (trim priceStr))
          else if rejected_number (stod (trim sizeStr))
          then parseRow stod line lineNumber = Inl (InvalidNumber ''size'' (trim sizeStr))
          else \<exists>sd. parseSide (trim sideStr) = Inr sd
                 \<and> parseRow stod line lineNumber
                     = Inr \<lparr>side = sd, price = parsed_value (stod (trim priceStr)),
                            size' = parsed_value (stod (trim sizeStr))\<rparr>)
       \<and> parseRow stod_dec ''bid,-1.0,5'' lineNumber = Inl (InvalidNumber ''price'' ''-1.0'')"
proof -
  from parseSide_valid [OF assms(5)] obtain sd where sd: "parseSide (trim sideStr) = Inr sd"
    by blast
  have example: "parseRow stod_dec ''bid,-1.0,5'' lineNumber = Inl (InvalidNumber ''price'' ''-1.0'')"
    by (simp add: row_eval)
  show ?thesis
    by (simp add: parseRow_nonempty_fields [OF assms(1-4) sd] sd example)
qed

theorem C7_invalid_number_witness:
  "read_fields ''bid, 0 ,5'' = (''bid'', '' 0 '', ''5'')
   \<and> trim ''bid'' \<noteq> [] \<and> trim '' 0 '' \<noteq> [] \<and> trim ''5'' \<noteq> []
   \<and> valid_side_token (trim ''bid'')
   \<and> rejected_number (stod_dec (trim '' 0 ''))
   \<and> parseRow stod_dec ''bid, 0 ,5'' 2 = Inl (InvalidNumber ''price'' ''0'')"
proof -
  have fields: "read_fields ''bid, 0 ,5'' = (''bid'', '' 0 '', ''5'')"
    by (simp add: read_fields_def getline_def)
  have t1: "trim ''bid'' = ''bid''" and t2: "trim '' 0 '' = ''0''" and t3: "trim ''5'' = ''5''"
    by (simp_all add: trim_def ws_def find_last_not_of_def)
  have side: "valid_side_token (trim ''bid'')"
    by (simp add: t1 valid_side_token_def tolower_def)
  have rej: "rejected_number (stod_dec (trim '' 0 ''))"
    by (simp add: t2 rejected_number_def parseable_finite_def parsed_value_def stod_dec_def
        isspace_def isdigit_def digit_of_def exponent_of_def scale10_def tolower_def)
  from C7_invalid_number [OF fields _ _ _ side, of stod_dec 2] t1 t2 t3 rej fields side
  show ?thesis by simp
qed

text \<open>
  C8: when any of the three fields read from the line is empty after trimming, the
  parser fails with MalformedRow carrying the line number, whatever the side text is and
  whatever \<open>stod\<close> would return: neither is looked at. The row \<open>,100.0,5\<close> fails with
  MalformedRow.
\<close>

theorem C8_malformed_row:
  assumes "read_fields line = (sideStr, priceStr, sizeStr)"
    and "trim sideStr = [] \<or> trim priceStr = [] \<or> trim sizeStr = []"
  shows "parseRow stod line lineNumber = Inl (MalformedRow lineNumber)
       \<and> parseRow stod '',100.0,5'' lineNumber = Inl (MalformedRow lineNumber)"
proof -
  have "parseRow stod '',100.0,5'' lineNumber = Inl (MalformedRow lineNumber)"
    by (simp add: parseRow_def read_fields_def getline_def trim_def ws_def)
  with assms show ?thesis
    by (simp add: parseRow_def)
qed

theorem C8_malformed_row_witness:
  "read_fields ''bid,  ,abc'' = (''bid'', ''  '', ''abc'')
   \<and> trim ''  '' = []
   \<and> parseRow stod_dec ''bid,  ,abc'' 7 = Inl (MalformedRow 7)"
proof -
  have fields: "read_fields ''bid,  ,abc'' = (''bid'', ''  '', ''abc'')"
    by (simp add: read_fields_def getline_def)
  have blank: "trim ''  '' = []"
    by (simp add: trim_def ws_def)
  from C8_malformed_row [OF fields, of stod_dec 7] blank fields show ?thesis
    by simp
qed

text \<open>
  C10: a fourth comma and everything after it are never read. A line with more than
  three comma-separated fields parses to exactly what its first three fields parse to;
  when these are valid (non-empty after trimming, a valid side token, two numbers that
  are not rejected) the parser succeeds with the order they denote.
  \<open>bid,100.0,5,garbage\<close> is the bid order with price 100 and size 5.
\<close>

theorem C10_extra_fields_ignored:
  assumes "CHR '','' \<notin> set sideStr" and "CHR '','' \<notin> set priceStr" and "CHR '','' \<notin> set sizeStr"
  shows "read_fields (sideStr @ '','' @ priceStr @ '','' @ sizeStr @ '','' @ rest)
           = (sideStr, priceStr, sizeStr)
       \<and> parseRow stod (sideStr @ '','' @ priceStr @ '','' @ sizeStr @ '','' @ rest) lineNumber
           = parseRow stod (sideStr @ '','' @ priceStr @ '','' @ sizeStr) lineNumber
       \<and> (trim sideStr \<noteq> [] \<and> trim priceStr \<noteq> [] \<and> trim sizeStr \<noteq> []
            \<and> valid_side_token (trim sideStr)
            \<and> \<not> rejected_number (stod (trim priceStr))
            \<and> \<not> rejected_number (stod (trim sizeStr))
          \<longrightarrow> (\<exists>sd. parseSide (trim sideStr) = Inr sd
                 \<and> parseRow stod (sideStr @ '','' @ priceStr @ '','' @ sizeStr @ '','' @ rest) lineNumber
                     = Inr \<lparr>side = sd, price = parsed_value (stod (trim priceStr)),
                            size' = parsed_value (stod (trim sizeStr))\<rparr>))
       \<and> parseRow stod_dec ''bid,100.0,5,garbage'' lineNumber
           = Inr \<lparr>side = BID, price = 100, size' = 5\<rparr>"
proof -
  let ?long = "sideStr @ '','' @ priceStr @ '','' @ sizeStr @ '','' @ rest"
  have fields: "read_fields ?long = (sideStr, priceStr, sizeStr)"
    by (rule read_fields_more [OF assms])
  have example: "parseRow stod_dec ''bid,100.0,5,garbage'' lineNumber
           = Inr \<lparr>side = BID, price = 100, size' = 5\<rparr>"
    by (simp add: row_eval)
  have same: "parseRow stod ?long lineNumber
           = parseRow stod (sideStr @ '','' @ priceStr @ '','' @ sizeStr) lineNumber"
    by (rule parseRow_fields) (simp only: fields read_fields_three [OF assms])
  have valid: "\<exists>sd. parseSide (trim sideStr) = Inr sd
         \<and> parseRow stod ?long lineNumber
             = Inr \<lparr>side = sd, price = parsed_value (stod (trim priceStr)),
                    size' = parsed_value (stod (trim sizeStr))\<rparr>"
    if ok: "trim sideStr \<noteq> [] \<and> trim priceStr \<noteq> [] \<and> trim sizeStr \<noteq> []
            \<and> valid_side_token (trim sideStr)
            \<and> \<not> rejected_number (stod (trim priceStr))
            \<and> \<not> rejected_number (stod (trim sizeStr))"
  proof -
    from ok parseSide_valid obtain sd where sd: "parseSide (trim sideStr) = Inr sd"
      by blast
    from ok have "trim sideStr \<noteq> []" and "trim priceStr \<noteq> []" and "trim sizeStr \<noteq> []"
      by simp_all
    from parseRow_nonempty_fields [OF fields this sd, of stod lineNumber] ok sd
    show ?thesis by simp
  qed
  from fields same valid example show ?thesis
    by blast
qed

theorem C10_extra_fields_ignored_witness:
  "CHR '','' \<notin> set ''ask'' \<and> CHR '','' \<notin> set '' 101.5'' \<and> CHR '','' \<notin> set ''8''
   \<and> trim ''ask'' \<noteq> [] \<and> trim '' 101.5'' \<noteq> [] \<and> trim ''8'' \<noteq> []
   \<and> valid_side_token (trim ''ask'')
   \<and> \<not> rejected_number (stod_dec (trim '' 101.5''))
   \<and> \<not> rejected_number (stod_dec (trim ''8''))
   \<and> parseRow stod_dec ''ask, 101.5,8'' 4 = Inr \<lparr>side = ASK, price = 101.5, size' = 8\<rparr>
   \<and> parseRow stod_dec ''ask, 101.5,8,x,y'' 4 = Inr \<lparr>side = ASK, price = 101.5, size' = 8\<rparr>"
proof -
  have short: "parseRow stod_dec ''ask, 101.5,8'' 4 = Inr \<lparr>side = ASK, price = 101.5, size' = 8\<rparr>"
    by (simp add: row_eval)
  have t1: "trim ''ask'' = ''ask''" and t2: "trim '' 101.5'' = ''101.5''" and t3: "trim ''8'' = ''8''"
    by (simp_all add: trim_def ws_def find_last_not_of_def)
  have side: "valid_side_token (trim ''ask'')"
    by (simp add: t1 valid_side_token_def tolower_def)
  have nums: "\<not> rejected_number (stod_dec (trim '' 101.5''))"
      "\<not> rejected_number (stod_dec (trim ''8''))"
    by (simp_all add: t2 t3 rejected_number_def parseable_finite_def parsed_value_def stod_dec_def
        isspace_def isdigit_def digit_of_def exponent_of_def scale10_def tolower_def)
  from C10_extra_fields_ignored [of "''ask''" "'' 101.5''" "''8''" "''x,y''" stod_dec 4]
    short t1 t2 t3 side nums
  show ?thesis by simp
qed

text \<open>
  What \<open>stod\<close> accepts decides what counts as a number: like the library function,
  \<open>stod_dec\<close> converts the longest numeric prefix and leaves the rest unread, so a field
  such as \<open>1.5abc\<close> is the number 1.5, while \<open>abc\<close> and \<open>inf\<close> are rejected.
\<close>

lemma parseRow_numeric_prefix:
  "parseRow stod_dec ''bid,1.5abc,5'' lineNumber = Inr \<lparr>side = BID, price = 1.5, size' = 5\<rparr>"
  "parseRow stod_dec ''bid,abc,5'' lineNumber = Inl (InvalidNumber ''price'' ''abc'')"
  "parseRow stod_dec ''bid,100,inf'' lineNumber = Inl (InvalidNumber ''size'' ''inf'')"
  by (simp_all add: row_eval)

section \<open>Properties of the book loader\<close>

lemma mset_insert_sorted: "mset (insert_sorted cmp x ys) = add_mset x (mset ys)"
  by (induction ys) simp_all

lemma mset_std_sort: "mset (std_sort cmp xs) = mset xs"
  unfolding std_sort_def by (induction xs) (simp_all add: mset_insert_sorted)

lemma set_std_sort: "set (std_sort cmp xs) = set xs"
  using mset_std_sort [of cmp xs] by (metis set_mset_mset)

lemma std_sort_empty: "(std_sort cmp xs = []) = (xs = [])"
  using mset_std_sort [of cmp xs] by (metis mset_zero_iff)

lemma set_insert_sorted: "set (insert_sorted cmp x ys) = insert x (set ys)"
  using mset_insert_sorted [of cmp x ys] by (metis set_mset_add_mset_insert set_mset_mset)

lemma insert_sorted_keeps_order:
  fixes k :: "'a \<Rightarrow> real"
  assumes key: "\<And>a b. cmp a b = (k a < k b)"
    and "sorted_wrt (\<lambda>a b. k a \<le> k b) ys"
  shows "sorted_wrt (\<lambda>a b. k a \<le> k b) (insert_sorted cmp x ys)"
  using assms(2)
proof (induction ys)
  case Nil
  show ?case by simp
next
  case (Cons y ys)
  show ?case
  proof (cases "k y < k x")
    case True
    with Cons show ?thesis
      by (auto simp: key set_insert_sorted)
  next
    case False
    with Cons.prems show ?thesis
      by (auto simp: key)
  qed
qed

lemma std_sort_ordered:
  fixes k :: "'a \<Rightarrow> real"
  assumes key: "\<And>a b. cmp a b = (k a < k b)"
  shows "sorted_wrt (\<lambda>a b. k a \<le> k b) (std_sort cmp xs)"
  unfolding std_sort_def
  by (induction xs) (simp_all add: insert_sorted_keeps_order [OF key])

lemma sort_bids_descending: "descending (std_sort (\<lambda>a b. price a > price b) xs)"
  using std_sort_ordered [of "\<lambda>a b. price a > price b" "\<lambda>ord. - price ord" xs]
  by (simp add: descending_def)

lemma sort_asks_ascending: "ascending (std_sort (\<lambda>a b. price a < price b) xs)"
  using std_sort_ordered [of "\<lambda>a b. price a < price b" price xs]
  by (simp add: ascending_def)

lemma descending_head_Max:
  assumes "descending xs" and "xs \<noteq> []"
  shows "price (xs ! 0) = Max (price ` set xs)"
proof -
  from assms(2) obtain x rest where xs: "xs = x # rest" by (cases xs) auto
  with assms(1) have "\<forall>y \<in> set xs. price y \<le> price x"
    by (auto simp: descending_def)
  then have "Max (price ` set xs) = price x"
    by (intro Max_eqI) (auto simp: xs)
  then show ?thesis by (simp add: xs)
qed

lemma ascending_head_Min:
  assumes "ascending xs" and "xs \<noteq> []"
  shows "price (xs ! 0) = Min (price ` set xs)"
proof -
  from assms(2) obtain x rest where xs: "xs = x # rest" by (cases xs) auto
  with assms(1) have "\<forall>y \<in> set xs. price x \<le> price y"
    by (auto simp: ascending_def)
  then have "Min (price ` set xs) = price x"
    by (intro Min_eqI) (auto simp: xs)
  then show ?thesis by (simp add: xs)
qed

lemma descending_distinct_strict:
  "descending xs \<Longrightarrow> distinct (map price xs) \<Longrightarrow> strictly_descending xs"
  unfolding descending_def strictly_descending_def
proof (induction xs)
  case Nil
  show ?case by simp
next
  case (Cons x xs)
  have "price y < price x" if "y \<in> set xs" for y
  proof -
    from that Cons.prems(1) have "price y \<le> price x" by simp
    moreover from Cons.prems(2) have "price x \<notin> price ` set xs" by simp
    with that have "price y \<noteq> price x" by (metis imageI)
    ultimately show ?thesis by simp
  qed
  with Cons show ?case by simp
qed

lemma ascending_distinct_strict:
  "ascending xs \<Longrightarrow> distinct (map price xs) \<Longrightarrow> strictly_ascending xs"
  unfolding ascending_def strictly_ascending_def
proof (induction xs)
  case Nil
  show ?case by simp
next
  case (Cons x xs)
  have "price x < price y" if "y \<in> set xs" for y
  proof -
    from that Cons.prems(1) have "price x \<le> price y" by simp
    moreover from Cons.prems(2) have "price x \<notin> price ` set xs" by simp
    with that have "price y \<noteq> price x" by (metis imageI)
    ultimately show ?thesis by simp
  qed
  with Cons show ?case by simp
qed

lemma ask_orders_not_bid: "ask_orders orders = filter (\<lambda>ord. side ord \<noteq> BID) orders"
proof -
  have "(side ord = ASK) = (side ord \<noteq> BID)" for ord :: Order
    by (cases "side ord") simp_all
  then show ?thesis
    unfolding ask_orders_def by (intro filter_cong refl)
qed

lemma nonblank_pair: "nonblank (line, n) = (trim line \<noteq> [])"
  by (simp add: nonblank_def)

lemma parse_numbered_pair: "parse_numbered stod (line, n) = parseRow stod line n"
  by (simp add: parse_numbered_def)

lemma load_loop_parsed:
  "map (parse_numbered stod) (filter nonblank (number_from (n + 1) lines)) = map Inr orders
   \<Longrightarrow> load_loop stod lines n book
       = Inr (book\<lparr>bids := bids book @ bid_orders orders, asks := asks book @ ask_orders orders\<rparr>)"
proof (induction lines arbitrary: n book orders)
  case Nil
  then show ?case by (simp add: bid_orders_def ask_orders_def)
next
  case (Cons line lines)
  show ?case
  proof (cases "trim line = []")
    case True
    with Cons.prems have "map (parse_numbered stod) (filter nonblank (number_from (n + 1 + 1) lines))
        = map Inr orders"
      by (simp add: nonblank_pair)
    from Cons.IH [OF this] True show ?thesis by simp
  next
    case False
    with Cons.prems obtain ord rest where orders: "orders = ord # rest"
      and row: "parseRow stod line (n + 1) = Inr ord"
      and tail: "map (parse_numbered stod) (filter nonblank (number_from (n + 1 + 1) lines))
        = map Inr rest"
      by (cases orders) (auto simp: nonblank_pair parse_numbered_pair)
    from Cons.IH [OF tail] False row show ?thesis
      by (simp add: orders bid_orders_def ask_orders_not_bid)
  qed
qed

lemma load_loop_Inr:
  "load_loop stod lines n book = Inr book'
   \<Longrightarrow> \<exists>orders. map (parse_numbered stod) (filter nonblank (number_from (n + 1) lines)) = map Inr orders
         \<and> bids book' = bids book @ bid_orders orders
         \<and> asks book' = asks book @ ask_orders orders"
proof (induction lines arbitrary: n book)
  case Nil
  then show ?case by (auto simp: bid_orders_def ask_orders_def)
next
  case (Cons line lines)
  show ?case
  proof (cases "trim line = []")
    case True
    with Cons.prems have "load_loop stod lines (n + 1) book = Inr book'" by simp
    from Cons.IH [OF this] True show ?thesis by (simp add: nonblank_pair)
  next
    case False
    with Cons.prems obtain ord where row: "parseRow stod line (n + 1) = Inr ord"
      by (auto split: sum.splits)
    show ?thesis
    proof (cases "side ord = BID")
      case True
      with Cons.prems False row
      have "load_loop stod lines (n + 1) (book\<lparr>bids := bids book @ [ord]\<rparr>) = Inr book'"
        by simp
      from Cons.IH [OF this] obtain rest where
        "map (parse_numbered stod) (filter nonblank (number_from (n + 1 + 1) lines)) = map Inr rest"
        "bids book' = (bids book @ [ord]) @ bid_orders rest"
        "asks book' = asks book @ ask_orders rest"
        by auto
      with False row True show ?thesis
        by (intro exI [of _ "ord # rest"])
          (simp add: nonblank_pair parse_numbered_pair bid_orders_def ask_orders_not_bid)
    next
      case notbid: False
      with Cons.prems False row
      have "load_loop stod lines (n + 1) (book\<lparr>asks := asks book @ [ord]\<rparr>) = Inr book'"
        by simp
      from Cons.IH [OF this] obtain rest where
        "map (parse_numbered stod) (filter nonblank (number_from (n + 1 + 1) lines)) = map Inr rest"
        "bids book' = bids book @ bid_orders rest"
        "asks book' = (asks book @ [ord]) @ ask_orders rest"
        by auto
      with False row notbid show ?thesis
        by (intro exI [of _ "ord # rest"])
          (simp add: nonblank_pair parse_numbered_pair bid_orders_def ask_orders_not_bid)
    qed
  qed
qed

lemma loadCSV_Inr:
  assumes "loadCSV stod fs filename = Inr book"
  shows "\<exists>content orders. fs filename = Some content
         \<and> map (parse_numbered stod) (data_rows content) = map Inr orders
         \<and> bid_orders orders \<noteq> [] \<and> ask_orders orders \<noteq> []
         \<and> bids book = std_sort (\<lambda>a b. price a > price b) (bid_orders orders)
         \<and> asks book = std_sort (\<lambda>a b. price a < price b) (ask_orders orders)
         \<and> price (bids book ! 0) < price (asks book ! 0)"
proof -
  from assms obtain content where content: "fs filename = Some content"
    by (auto simp: loadCSV_def split: option.splits)
  with assms obtain raw where
    raw: "load_loop stod (drop 1 (getlines content)) 1 \<lparr>bids = [], asks = []\<rparr> = Inr raw"
    by (auto simp: loadCSV_def split: sum.splits)
  from load_loop_Inr [OF raw] obtain orders where
    rows: "map (parse_numbered stod) (data_rows content) = map Inr orders"
    and b: "bids raw = bid_orders orders" and a: "asks raw = ask_orders orders"
    by (auto simp: data_rows_def)
  from assms content raw b a show ?thesis
    by (intro exI [of _ content] exI [of _ orders])
      (auto simp: loadCSV_def rows Let_def split: if_splits)
qed

lemma parsed_rows_valid:
  "map (parse_numbered stod) rows = map Inr orders \<Longrightarrow> list_all valid_order orders"
proof (induction rows arbitrary: orders)
  case Nil
  then show ?case by simp
next
  case (Cons row rows)
  then obtain ord rest where orders: "orders = ord # rest"
    and row: "parse_numbered stod row = Inr ord"
    and tail: "map (parse_numbered stod) rows = map Inr rest"
    by (cases orders) auto
  from row have "valid_order ord"
    by (simp add: parse_numbered_def parseRow_valid_order)
  with Cons.IH [OF tail] show ?case
    by (simp add: orders)
qed

lemma loaded_orders_valid:
  assumes "loadCSV stod fs filename = Inr book"
  shows "list_all valid_order (bids book)" and "list_all valid_order (asks book)"
proof -
  from loadCSV_Inr [OF assms] obtain content orders where
    rows: "map (parse_numbered stod) (data_rows content) = map Inr orders"
    and b: "bids book = std_sort (\<lambda>a b. price a > price b) (bid_orders orders)"
    and a: "asks book = std_sort (\<lambda>a b. price a < price b) (ask_orders orders)"
    by blast
  from parsed_rows_valid [OF rows] have "\<forall>ord \<in> set orders. valid_order ord"
    by (simp add: list_all_iff)
  then show "list_all valid_order (bids book)" and "list_all valid_order (asks book)"
    by (simp_all add: list_all_iff a b set_std_sort bid_orders_def ask_orders_def)
qed

lemma mset_side_split: "mset (bid_orders orders) + mset (ask_orders orders) = mset orders"
  by (induction orders) (simp_all add: bid_orders_def ask_orders_not_bid)


lemmas load_eval =
  loadCSV_def sample_fs_def getlines.simps std_sort_def row_eval

lemma sample_book:
  "loadCSV stod_dec sample_fs ''orderbook.csv''
     = Inr \<lparr>bids = [\<lparr>side = BID, price = 100, size' = 10\<rparr>, \<lparr>side = BID, price = 99, size' = 5\<rparr>],
            asks = [\<lparr>side = ASK, price = 101, size' = 8\<rparr>, \<lparr>side = ASK, price = 102, size' = 10\<rparr>]\<rparr>"
  by (simp add: load_eval)

lemma crossed_rows:
  "map (parse_numbered stod_dec)
       (data_rows ''side,price,size\<newline>bid,105.0,1\<newline>ask,100.0,1\<newline>'')
     = map Inr [\<lparr>side = BID, price = 105, size' = 1\<rparr>, \<lparr>side = ASK, price = 100, size' = 1\<rparr>]"
  by (simp add: data_rows_def nonblank_def parse_numbered_def getlines.simps row_eval)

text \<open>
  C1, as the code has it: in every loaded book the bids are in descending and the asks in
  ascending order of price, strictly so when the prices on the side are pairwise
  distinct; both sides are non-empty and the first bid is strictly below the first ask.
  When the file opens, every non-blank data row parses, both sides have an order and the
  highest bid price is at least the lowest ask price (these are the prices at index 0
  after sorting), loading fails with CrossedBook of these two prices.
\<close>

theorem C1_loaded_book_ordered:
  "(loadCSV stod fs filename = Inr book \<longrightarrow>
      descending (bids book) \<and> ascending (asks book)
      \<and> (distinct (map price (bids book)) \<longrightarrow> strictly_descending (bids book))
      \<and> (distinct (map price (asks book)) \<longrightarrow> strictly_ascending (asks book))
      \<and> bids book \<noteq> [] \<and> asks book \<noteq> []
      \<and> price (bids book ! 0) < price (asks book ! 0))
   \<and> (fs filename = Some content
        \<and> map (parse_numbered stod) (data_rows content) = map Inr orders
        \<and> bid_orders orders \<noteq> [] \<and> ask_orders orders \<noteq> []
        \<and> Max (price ` set (bid_orders orders)) \<ge> Min (price ` set (ask_orders orders))
      \<longrightarrow> loadCSV stod fs filename
            = Inl (CrossedBook (Max (price ` set (bid_orders orders)))
                               (Min (price ` set (ask_orders orders)))))"
proof (intro conjI impI)
  assume loaded: "loadCSV stod fs filename = Inr book"
  from loadCSV_Inr [OF loaded] obtain orders' where
    nb: "bid_orders orders' \<noteq> []" and na: "ask_orders orders' \<noteq> []"
    and b: "bids book = std_sort (\<lambda>a b. price a > price b) (bid_orders orders')"
    and a: "asks book = std_sort (\<lambda>a b. price a < price b) (ask_orders orders')"
    and lt: "price (bids book ! 0) < price (asks book ! 0)"
    by blast
  show d: "descending (bids book)" by (simp add: b sort_bids_descending)
  show u: "ascending (asks book)" by (simp add: a sort_asks_ascending)
  show "bids book \<noteq> []" by (simp add: b std_sort_empty nb)
  show "asks book \<noteq> []" by (simp add: a std_sort_empty na)
  show "price (bids book ! 0) < price (asks book ! 0)" by (rule lt)
  show "strictly_descending (bids book)" if "distinct (map price (bids book))"
    using d that by (rule descending_distinct_strict)
  show "strictly_ascending (asks book)" if "distinct (map price (asks book))"
    using u that by (rule ascending_distinct_strict)
next
  assume pre: "fs filename = Some content
        \<and> map (parse_numbered stod) (data_rows content) = map Inr orders
        \<and> bid_orders orders \<noteq> [] \<and> ask_orders orders \<noteq> []
        \<and> Max (price ` set (bid_orders orders)) \<ge> Min (price ` set (ask_orders orders))"
  let ?bs = "std_sort (\<lambda>a b. price a > price b) (bid_orders orders)"
  let ?as = "std_sort (\<lambda>a b. price a < price b) (ask_orders orders)"
  from pre have rows: "map (parse_numbered stod)
      (filter nonblank (number_from (1 + 1) (drop 1 (getlines content)))) = map Inr orders"
    by (simp add: data_rows_def)
  have raw: "load_loop stod (drop 1 (getlines content)) 1 \<lparr>bids = [], asks = []\<rparr>
      = Inr \<lparr>bids = bid_orders orders, asks = ask_orders orders\<rparr>"
    using load_loop_parsed [OF rows, of "\<lparr>bids = [], asks = []\<rparr>"] by simp
  from pre have "?bs \<noteq> []" and "?as \<noteq> []"
    by (simp_all add: std_sort_empty)
  then have best: "price (?bs ! 0) = Max (price ` set (bid_orders orders))"
      "price (?as ! 0) = Min (price ` set (ask_orders orders))"
    using descending_head_Max [OF sort_bids_descending, of "bid_orders orders"]
      ascending_head_Min [OF sort_asks_ascending, of "ask_orders orders"]
    by (simp_all add: set_std_sort)
  from pre raw show "loadCSV stod fs filename
            = Inl (CrossedBook (Max (price ` set (bid_orders orders)))
                               (Min (price ` set (ask_orders orders))))"
    by (simp add: loadCSV_def Let_def best)
qed

theorem C1_loaded_book_ordered_witness:
  "loadCSV stod_dec sample_fs ''orderbook.csv''
     = Inr \<lparr>bids = [\<lparr>side = BID, price = 100, size' = 10\<rparr>, \<lparr>side = BID, price = 99, size' = 5\<rparr>],
            asks = [\<lparr>side = ASK, price = 101, size' = 8\<rparr>, \<lparr>side = ASK, price = 102, size' = 10\<rparr>]\<rparr>
   \<and> strictly_descending [\<lparr>side = BID, price = 100, size' = 10\<rparr>, \<lparr>side = BID, price = 99, size' = 5\<rparr>]
   \<and> strictly_ascending [\<lparr>side = ASK, price = 101, size' = 8\<rparr>, \<lparr>side = ASK, price = 102, size' = 10\<rparr>]
   \<and> sample_fs ''crossed.csv'' = Some ''side,price,size\<newline>bid,105.0,1\<newline>ask,100.0,1\<newline>''
   \<and> loadCSV stod_dec sample_fs ''crossed.csv'' = Inl (CrossedBook 105 100)"
proof -
  have opened: "sample_fs ''crossed.csv'' = Some ''side,price,size\<newline>bid,105.0,1\<newline>ask,100.0,1\<newline>''"
    by (simp add: sample_fs_def)
  from C1_loaded_book_ordered
    [of stod_dec sample_fs "''orderbook.csv''"
      "\<lparr>bids = [\<lparr>side = BID, price = 100, size' = 10\<rparr>, \<lparr>side = BID, price = 99, size' = 5\<rparr>],
        asks = [\<lparr>side = ASK, price = 101, size' = 8\<rparr>, \<lparr>side = ASK, price = 102, size' = 10\<rparr>]\<rparr>"]
    sample_book
  have ordered: "strictly_descending [\<lparr>side = BID, price = 100, size' = 10\<rparr>, \<lparr>side = BID, price = 99, size' = 5\<rparr>]
      \<and> strictly_ascending [\<lparr>side = ASK, price = 101, size' = 8\<rparr>, \<lparr>side = ASK, price = 102, size' = 10\<rparr>]"
    by simp
  from C1_loaded_book_ordered
    [of stod_dec sample_fs "''crossed.csv''" _
      "''side,price,size\<newline>bid,105.0,1\<newline>ask,100.0,1\<newline>''"
      "[\<lparr>side = BID, price = 105, size' = 1\<rparr>, \<lparr>side = ASK, price = 100, size' = 1\<rparr>]"]
    opened crossed_rows
  have crossed: "loadCSV stod_dec sample_fs ''crossed.csv'' = Inl (CrossedBook 105 100)"
    by (simp add: bid_orders_def ask_orders_def)
  from ordered crossed opened sample_book show ?thesis by simp
qed

theorem C1_strictly_sorted_counterexample:
  "loadCSV stod_dec sample_fs ''ties.csv''
     = Inr \<lparr>bids = [\<lparr>side = BID, price = 100, size' = 5\<rparr>, \<lparr>side = BID, price = 100, size' = 3\<rparr>],
            asks = [\<lparr>side = ASK, price = 101, size' = 1\<rparr>]\<rparr>
   \<and> \<not> strictly_descending
         (bids \<lparr>bids = [\<lparr>side = BID, price = 100, size' = 5\<rparr>, \<lparr>side = BID, price = 100, size' = 3\<rparr>],
                asks = [\<lparr>side = ASK, price = 101, size' = 1\<rparr>]\<rparr>)"
  by (simp add: load_eval strictly_descending_def)

text \<open>
  C9: when \<open>loadCSV\<close> succeeds, every non-blank data row of the file parsed to an order,
  and the bids and asks of the book together are, as a multiset, exactly these orders:
  the bids are the orders of side BID and the asks those of side ASK, none dropped,
  duplicated or changed.
\<close>

theorem C9_orders_preserved:
  assumes "loadCSV stod fs filename = Inr book"
  shows "\<exists>content orders. fs filename = Some content
           \<and> map (parse_numbered stod) (data_rows content) = map Inr orders
           \<and> mset (bids book) + mset (asks book) = mset orders
           \<and> mset (bids book) = mset (bid_orders orders)
           \<and> mset (asks book) = mset (ask_orders orders)
           \<and> list_all (\<lambda>ord. side ord = BID) (bids book)
           \<and> list_all (\<lambda>ord. side ord = ASK) (asks book)"
proof -
  from loadCSV_Inr [OF assms] obtain content orders where
    opened: "fs filename = Some content"
    and rows: "map (parse_numbered stod) (data_rows content) = map Inr orders"
    and b: "bids book = std_sort (\<lambda>a b. price a > price b) (bid_orders orders)"
    and a: "asks book = std_sort (\<lambda>a b. price a < price b) (ask_orders orders)"
    by blast
  have mb: "mset (bids book) = mset (bid_orders orders)"
    and ma: "mset (asks book) = mset (ask_orders orders)"
    by (simp_all add: a b mset_std_sort)
  have sb: "list_all (\<lambda>ord. side ord = BID) (bids book)"
    and sa: "list_all (\<lambda>ord. side ord = ASK) (asks book)"
    by (simp_all add: a b list_all_iff set_std_sort bid_orders_def ask_orders_def)
  from opened rows mb ma sb sa mset_side_split [of orders] show ?thesis
    by (intro exI [of _ content] exI [of _ orders]) simp
qed

theorem C9_orders_preserved_witness:
  "loadCSV stod_dec sample_fs ''orderbook.csv''
     = Inr \<lparr>bids = [\<lparr>side = BID, price = 100, size' = 10\<rparr>, \<lparr>side = BID, price = 99, size' = 5\<rparr>],
            asks = [\<lparr>side = ASK, price = 101, size' = 8\<rparr>, \<lparr>side = ASK, price = 102, size' = 10\<rparr>]\<rparr>
   \<and> (\<exists>orders.
         map (parse_numbered stod_dec)
           (data_rows ''side,price,size\<newline>bid,100.0,10\<newline>ask,101.0,8\<newline>\<newline>bid,99.0,5\<newline>ask,102.0,10\<newline>'')
           = map Inr orders
         \<and> mset [\<lparr>side = BID, price = 100, size' = 10\<rparr>, \<lparr>side = BID, price = 99, size' = 5\<rparr>]
           + mset [\<lparr>side = ASK, price = 101, size' = 8\<rparr>, \<lparr>side = ASK, price = 102, size' = 10\<rparr>]
           = mset orders)"
proof -
  have opened: "sample_fs ''orderbook.csv''
      = Some ''side,price,size\<newline>bid,100.0,10\<newline>ask,101.0,8\<newline>\<newline>bid,99.0,5\<newline>ask,102.0,10\<newline>''"
    by (simp add: sample_fs_def)
  from C9_orders_preserved [OF sample_book] opened sample_book show ?thesis
    by auto
qed




end
